theory Spec2Isabelle
  imports Main
begin

section \<open>The logger of tools/logger.hpp\<close>

subsection \<open>Severity levels\<close>

text \<open>
  \<^verbatim>\<open>enum logstate { none = 0, error = 1, warn = 2, info = 3 };\<close>
  A value of the enumeration is a value of its underlying integer type, and the code
  compares two of them with \<^verbatim>\<open>==\<close> and \<^verbatim>\<open>>\<close> on integers. A level is therefore
  an integer, and the four labels are names of four of them; a value that is no label
  can reach the logger through a cast. Which integer type lies under the enumeration is
  left to the compiler (an unsigned one has no negative values); \<open>int\<close> covers
  every choice.
\<close>

type_synonym logstate = int

definition none :: logstate where "none = 0"
definition error :: logstate where "error = 1"
definition warn :: logstate where "warn = 2"
definition info :: logstate where "info = 3"

text \<open>\<^verbatim>\<open>exception::runtime\<close>, the only exception the logger throws, with its message.\<close>

datatype exception = runtime string

subsection \<open>The output stream, the file and the effects of a process\<close>

text \<open>
  \<^verbatim>\<open>std::ofstream m_file\<close>: whether a file is attached to the stream, and the
  characters that wait in the buffer of the stream. A stream with no file attached
  takes no characters (its failed \<^verbatim>\<open>open\<close> left it in the fail state), and
  \<^verbatim>\<open>open\<close> on success leaves the stream good. Once the file is open, writing
  to it and flushing it succeed: a full disk is not part of the model.
\<close>

record ofstream =
  is_open :: bool
  pending :: string

datatype openmode = ios_out | ios_app

text \<open>
  What a process does to the world outside the logger object, in the order it does it:
  opening the log file (with the outcome), bytes reaching the file at a flush, a
  collective barrier, a non-blocking send (destination, tag, payload) and the start of
  the listener thread.
\<close>

datatype effect =
    FileOpen string openmode bool
  | FileWrite string
  | MpiBarrier
  | MpiIsend int int string
  | ThreadSpawn

text \<open>
  The members of \<^verbatim>\<open>class logger\<close> (\<open>m_logstate\<close>, \<open>m_filename\<close>, \<open>m_file\<close>,
  \<open>m_listenerrunnging\<close>) together with the part of the world the logger acts on:
  whether the file named \<open>m_filename\<close> can be opened for writing, the bytes it
  holds, and the effects performed so far. The three mutexes are not fields: a function
  below is the run of one thread that finds the mutex of its \<^verbatim>\<open>lock_guard\<close> free and
  releases it when the guard goes out of scope. The listener thread and
  \<open>m_muxfinalize\<close> are modelled in the last subsection of this section.
\<close>

record state =
  m_logstate :: logstate
  m_filename :: string
  m_file :: ofstream
  m_listenerrunnging :: bool
  openable :: bool
  disk :: string
  effects :: "effect list"

text \<open>\<^verbatim>\<open>mpi::communicator\<close>: the rank of the calling process and the number of processes.\<close>

record communicator =
  comm_rank :: int
  comm_size :: int

definition LOGGER_MPI_TAG :: int where "LOGGER_MPI_TAG = 999"

subsection \<open>Stream operations\<close>

text \<open>
  \<^verbatim>\<open>m_file.open(name, mode)\<close>. Opening to append keeps the bytes of the file; opening
  for output alone would empty it. On a stream that is open the call fails and the file
  stays attached (the logger opens only a closed stream).
\<close>

definition ofstream_open :: "string \<Rightarrow> openmode \<Rightarrow> state \<Rightarrow> state" where
  "ofstream_open name mode s =
     (if is_open (m_file s) then s
      else if openable s then
        s\<lparr>m_file := (m_file s)\<lparr>is_open := True\<rparr>,
          disk := (case mode of ios_app \<Rightarrow> disk s | ios_out \<Rightarrow> []),
          effects := effects s @ [FileOpen name mode True]\<rparr>
      else s\<lparr>effects := effects s @ [FileOpen name mode False]\<rparr>)"

text \<open>
  \<^verbatim>\<open>m_file << str\<close>. The buffer of the stream is the one of the GNU C++ library
  (\<^verbatim>\<open>basic_filebuf::xsputn\<close>): it has \<^verbatim>\<open>BUFSIZ\<close> bytes, one of them kept free, and
  a string of at least 1024 characters, or one that does not fit into the free part of
  the buffer, is not copied into it: what the buffer holds and the string go to the
  file in one write at the insertion. A shorter string waits in the buffer.
\<close>

definition filebuf_size :: nat where "filebuf_size = 8192"

definition filebuf_chunk :: nat where "filebuf_chunk = 1024"

definition ofstream_put :: "string \<Rightarrow> state \<Rightarrow> state" where
  "ofstream_put str s =
     (if \<not> is_open (m_file s) then s
      else if min filebuf_chunk (filebuf_size - 1 - length (pending (m_file s))) \<le> length str then
        s\<lparr>m_file := (m_file s)\<lparr>pending := []\<rparr>,
          disk := disk s @ pending (m_file s) @ str,
          effects := effects s @ [FileWrite (pending (m_file s) @ str)]\<rparr>
      else s\<lparr>m_file := (m_file s)\<lparr>pending := pending (m_file s) @ str\<rparr>\<rparr>)"

text \<open>\<^verbatim>\<open>m_file.flush()\<close>\<close>

definition ofstream_flush :: "state \<Rightarrow> state" where
  "ofstream_flush s =
     (if is_open (m_file s) \<and> pending (m_file s) \<noteq> [] then
        s\<lparr>m_file := (m_file s)\<lparr>pending := []\<rparr>,
          disk := disk s @ pending (m_file s),
          effects := effects s @ [FileWrite (pending (m_file s))]\<rparr>
      else s)"

text \<open>\<^verbatim>\<open>p_stream << p_mpi.rank()\<close>: an \<^verbatim>\<open>int\<close> in decimal.\<close>

function show_nat :: "nat \<Rightarrow> string" where
  "show_nat n =
     (if n < 10 then [''0123456789'' ! n]
      else show_nat (n div 10) @ [''0123456789'' ! (n mod 10)])"
  by pat_completeness auto
termination
  by (relation "measure id") auto

definition show_int :: "int \<Rightarrow> string" where
  "show_int i = (if i < 0 then ''-'' @ show_nat (nat (- i)) else show_nat (nat i))"

subsection \<open>Formatting and writing\<close>

text \<open>
  \<^verbatim>\<open>logger::logformat\<close> (lines 215-224). The stream argument is the text written to
  it so far; the value is what \<^verbatim>\<open><<\<close> prints for it.
\<close>

definition logformat :: "logstate \<Rightarrow> string \<Rightarrow> string \<Rightarrow> exception + string" where
  "logformat p_state p_val p_stream =
     (if p_state = info then Inr (p_stream @ ''[info]       '' @ p_val)
      else if p_state = warn then Inr (p_stream @ ''[warn]       '' @ p_val)
      else if p_state = error then Inr (p_stream @ ''[error]      '' @ p_val)
      else Inl (runtime ''log state is unkown''))"

text \<open>
  \<^verbatim>\<open>logger::write2file\<close> (lines 230-243). Nothing in it throws (the stream's
  exception mask is the default one), so every branch returns normally.
\<close>

definition write2file :: "string \<Rightarrow> state \<Rightarrow> exception + state" where
  "write2file p_data s =
     (if p_data = [] then Inr s
      else
        let s1 = (if \<not> is_open (m_file s) then ofstream_open (m_filename s) ios_app s else s);
            s2 = ofstream_put [CHR 0x0A] (ofstream_put p_data s1)
        in Inr (ofstream_flush s2))"

text \<open>The local \<^verbatim>\<open>logger::write\<close> (lines 199-207); \<open>write\<close> is a keyword of Isar, and
  the class has two overloads of that name.\<close>

definition write_local :: "logstate \<Rightarrow> string \<Rightarrow> state \<Rightarrow> exception + state" where
  "write_local p_state p_val s =
     (if m_logstate s = none \<or> p_state = none \<or> p_state > m_logstate s then Inr s
      else
        case logformat p_state p_val ''local - '' of
          Inl e \<Rightarrow> Inl e
        | Inr l_stream \<Rightarrow> write2file l_stream s)"

text \<open>The distributed \<^verbatim>\<open>logger::write\<close> (lines 286-299).\<close>

definition write_mpi :: "communicator \<Rightarrow> logstate \<Rightarrow> string \<Rightarrow> state \<Rightarrow> exception + state" where
  "write_mpi p_mpi p_state p_val s =
     (if m_logstate s = none \<or> p_state = none \<or> p_state > m_logstate s then Inr s
      else
        case logformat p_state p_val (''CPU '' @ show_int (comm_rank p_mpi) @ '' - '') of
          Inl e \<Rightarrow> Inl e
        | Inr l_stream \<Rightarrow>
            if comm_rank p_mpi = 0 then write2file l_stream s
            else Inr (s\<lparr>effects := effects s @ [MpiIsend 0 LOGGER_MPI_TAG l_stream]\<rparr>))"

text \<open>\<^verbatim>\<open>logger::startListener\<close> (lines 253-264).\<close>

definition startListener :: "communicator \<Rightarrow> state \<Rightarrow> state" where
  "startListener p_mpi s =
     (let s1 = s\<lparr>effects := effects s @ [MpiBarrier]\<rparr>
      in if comm_rank p_mpi \<noteq> 0 \<or> comm_size p_mpi = 1 \<or> m_listenerrunnging s1 then s1
         else s1\<lparr>m_listenerrunnging := True, effects := effects s1 @ [ThreadSpawn]\<rparr>)"

text \<open>
  The constructor (lines 124-132), in a world where the log file holds the given bytes
  and can or cannot be opened, and the two accessors (lines 180-192).
\<close>

definition logger_new :: "string \<Rightarrow> bool \<Rightarrow> string \<Rightarrow> state" where
  "logger_new name can_open bytes =
     \<lparr>m_logstate = none, m_filename = name, m_file = \<lparr>is_open = False, pending = []\<rparr>,
      m_listenerrunnging = False, openable = can_open, disk = bytes, effects = []\<rparr>"

definition setLevel :: "logstate \<Rightarrow> state \<Rightarrow> state" where
  "setLevel p_state s = s\<lparr>m_logstate := p_state\<rparr>"

definition getLevel :: "state \<Rightarrow> logstate" where
  "getLevel s = m_logstate s"

subsection \<open>Observing file I/O\<close>

text \<open>
  A call performs file I/O when it returns normally and has added effects, all of them
  on the file. A call that throws has performed none: the only \<^verbatim>\<open>throw\<close> is in
  \<open>logformat\<close>, which runs before the file is touched.
\<close>

fun is_file_io :: "effect \<Rightarrow> bool" where
  "is_file_io (FileOpen n m b) = True"
| "is_file_io (FileWrite bs) = True"
| "is_file_io MpiBarrier = False"
| "is_file_io (MpiIsend d t p) = False"
| "is_file_io ThreadSpawn = False"

definition performs_file_io :: "state \<Rightarrow> exception + state \<Rightarrow> bool" where
  "performs_file_io s r =
     (case r of
        Inl e \<Rightarrow> False
      | Inr s' \<Rightarrow>
          length (effects s) < length (effects s') \<and>
          take (length (effects s)) (effects s') = effects s \<and>
          list_all is_file_io (drop (length (effects s)) (effects s')))"

subsection \<open>shutdownListener against the listener thread\<close>

text \<open>
  A process of the job has the thread that calls \<^verbatim>\<open>shutdownListener\<close> (lines 270-277)
  and, on the coordinator, the thread that runs \<^verbatim>\<open>listener\<close> (lines 306-323); the two
  share the logger. Each thread is a program counter over its own statements; a step
  of a thread executes the statement at its counter, and a thread whose statement is
  a \<^verbatim>\<open>lock_guard\<close> on a held mutex does not move. A schedule chooses which thread
  moves next, or lets a message sent by another process arrive. Reads and writes of
  \<open>m_listenerrunnging\<close> take effect in the order of the schedule.
\<close>

datatype thread = MainThread | ListenerThread

datatype shutdown_pc =
    SD_entry
  | SD_barrier
  | SD_lock
  | SD_locked
  | SD_returned

text \<open>\<open>LS_none\<close>: the process has no listener thread.\<close>

datatype listener_pc =
    LS_none
  | LS_spawned
  | LS_outer
  | LS_probe
  | LS_recv
  | LS_yield
  | LS_exited

text \<open>
  \<open>proc\<close> is the logger and its world, \<open>m_muxfinalize\<close> the owner of that mutex,
  \<open>inbox\<close> the messages with tag \<open>LOGGER_MPI_TAG\<close> that have arrived and have not
  been received, oldest first.
\<close>

record process =
  comm :: communicator
  proc :: state
  m_muxfinalize :: "thread option"
  main_pc :: shutdown_pc
  lis_pc :: listener_pc
  inbox :: "string list"

datatype action = Run thread | Deliver string

text \<open>
  \<^verbatim>\<open>shutdownListener\<close>: \<open>SD_entry\<close> is line 271, \<open>SD_barrier\<close> line 272,
  \<open>SD_lock\<close> lines 275-276 (the guard is built only on rank 0), \<open>SD_locked\<close> the end
  of the guard's scope.
\<close>

definition shutdown_step :: "process \<Rightarrow> process" where
  "shutdown_step c =
     (case main_pc c of
        SD_entry \<Rightarrow> c\<lparr>proc := (proc c)\<lparr>m_listenerrunnging := False\<rparr>, main_pc := SD_barrier\<rparr>
      | SD_barrier \<Rightarrow>
          c\<lparr>proc := (proc c)\<lparr>effects := effects (proc c) @ [MpiBarrier]\<rparr>, main_pc := SD_lock\<rparr>
      | SD_lock \<Rightarrow>
          if comm_rank (comm c) = 0 then
            (if m_muxfinalize c = None
             then c\<lparr>m_muxfinalize := Some MainThread, main_pc := SD_locked\<rparr>
             else c)
          else c\<lparr>main_pc := SD_returned\<rparr>
      | SD_locked \<Rightarrow> c\<lparr>m_muxfinalize := None, main_pc := SD_returned\<rparr>
      | SD_returned \<Rightarrow> c)"

text \<open>
  \<^verbatim>\<open>listener\<close>: \<open>LS_spawned\<close> is line 308, \<open>LS_outer\<close> the test of line 310 (leaving
  the loop ends the function and destroys the guard), \<open>LS_probe\<close> the test of line 312,
  \<open>LS_recv\<close> lines 316-318, \<open>LS_yield\<close> line 321. An exception out of
  \<open>write2file\<close> would end the thread function too.
\<close>

definition listener_step :: "process \<Rightarrow> process" where
  "listener_step c =
     (case lis_pc c of
        LS_none \<Rightarrow> c
      | LS_spawned \<Rightarrow>
          if m_muxfinalize c = None
          then c\<lparr>m_muxfinalize := Some ListenerThread, lis_pc := LS_outer\<rparr>
          else c
      | LS_outer \<Rightarrow>
          if m_listenerrunnging (proc c) then c\<lparr>lis_pc := LS_probe\<rparr>
          else c\<lparr>m_muxfinalize := None, lis_pc := LS_exited\<rparr>
      | LS_probe \<Rightarrow>
          (case inbox c of [] \<Rightarrow> c\<lparr>lis_pc := LS_yield\<rparr> | l_str # rest \<Rightarrow> c\<lparr>lis_pc := LS_recv\<rparr>)
      | LS_recv \<Rightarrow>
          (case inbox c of
             [] \<Rightarrow> c
           | l_str # rest \<Rightarrow>
               (case write2file l_str (proc c) of
                  Inr p \<Rightarrow> c\<lparr>proc := p, inbox := rest, lis_pc := LS_probe\<rparr>
                | Inl e \<Rightarrow> c\<lparr>inbox := rest, m_muxfinalize := None, lis_pc := LS_exited\<rparr>))
      | LS_yield \<Rightarrow> c\<lparr>lis_pc := LS_outer\<rparr>
      | LS_exited \<Rightarrow> c)"

fun step :: "action \<Rightarrow> process \<Rightarrow> process" where
  "step (Run MainThread) c = shutdown_step c"
| "step (Run ListenerThread) c = listener_step c"
| "step (Deliver l_str) c = c\<lparr>inbox := inbox c @ [l_str]\<rparr>"

fun run :: "action list \<Rightarrow> process \<Rightarrow> process" where
  "run [] c = c"
| "run (a # as) c = run as (step a c)"







section \<open>Properties\<close>

subsection \<open>Auxiliary facts\<close>

lemmas stream_defs = ofstream_open_def ofstream_put_def ofstream_flush_def
  filebuf_size_def filebuf_chunk_def

lemmas label_defs = none_def error_def warn_def info_def

text \<open>
  What an insertion and a flush do to an open stream, whatever waits in the buffer:
  the bytes of file and buffer together grow by the string, and every effect is on the
  file.
\<close>

lemma ofstream_put_summary:
  assumes "is_open (m_file s)"
  obtains evs where
    "is_open (m_file (ofstream_put str s))"
    "disk (ofstream_put str s) @ pending (m_file (ofstream_put str s)) =
       disk s @ pending (m_file s) @ str"
    "effects (ofstream_put str s) = effects s @ evs"
    "list_all is_file_io evs" "count_list evs MpiBarrier = 0"
    "evs = [] \<longrightarrow> disk (ofstream_put str s) = disk s"
    "m_listenerrunnging (ofstream_put str s) = m_listenerrunnging s"
proof (cases "min filebuf_chunk (filebuf_size - 1 - length (pending (m_file s))) \<le> length str")
  case True
  with assms have "ofstream_put str s =
      s\<lparr>m_file := (m_file s)\<lparr>pending := []\<rparr>,
        disk := disk s @ pending (m_file s) @ str,
        effects := effects s @ [FileWrite (pending (m_file s) @ str)]\<rparr>"
    unfolding ofstream_put_def by (simp only: if_True if_False not_True_eq_False)
  with assms show ?thesis
    by (intro that [of "[FileWrite (pending (m_file s) @ str)]"]) simp_all
next
  case False
  with assms have "ofstream_put str s =
      s\<lparr>m_file := (m_file s)\<lparr>pending := pending (m_file s) @ str\<rparr>\<rparr>"
    unfolding ofstream_put_def by (simp only: if_True if_False not_True_eq_False)
  with assms show ?thesis
    by (intro that [of "[]"]) simp_all
qed

lemma ofstream_flush_summary:
  assumes "is_open (m_file s)"
  obtains evs where
    "is_open (m_file (ofstream_flush s))" "pending (m_file (ofstream_flush s)) = []"
    "disk (ofstream_flush s) = disk s @ pending (m_file s)"
    "effects (ofstream_flush s) = effects s @ evs"
    "list_all is_file_io evs" "count_list evs MpiBarrier = 0"
    "evs = [] \<longrightarrow> disk (ofstream_flush s) = disk s"
    "m_listenerrunnging (ofstream_flush s) = m_listenerrunnging s"
proof (cases "pending (m_file s) = []")
  case True
  with assms show ?thesis
    by (intro that [of "[]"]) (simp_all add: ofstream_flush_def)
next
  case False
  with assms show ?thesis
    by (intro that [of "[FileWrite (pending (m_file s))]"]) (simp_all add: ofstream_flush_def)
qed

lemma write2file_open_summary:
  assumes "p_data \<noteq> []" "is_open (m_file s)"
  obtains s' evs where "write2file p_data s = Inr s'"
    "is_open (m_file s')" "pending (m_file s') = []"
    "disk s' = disk s @ pending (m_file s) @ p_data @ [CHR 0x0A]"
    "effects s' = effects s @ evs" "evs \<noteq> []" "list_all is_file_io evs"
    "count_list evs MpiBarrier = 0"
    "m_listenerrunnging s' = m_listenerrunnging s"
proof -
  define s2 where "s2 = ofstream_put p_data s"
  define s3 where "s3 = ofstream_put [CHR 0x0A] s2"
  define s4 where "s4 = ofstream_flush s3"
  from assms have w: "write2file p_data s = Inr s4"
    by (simp add: write2file_def Let_def s2_def s3_def s4_def)
  from assms(2) obtain e2 where p2: "is_open (m_file s2)"
      "disk s2 @ pending (m_file s2) = disk s @ pending (m_file s) @ p_data"
      "effects s2 = effects s @ e2" "list_all is_file_io e2" "count_list e2 MpiBarrier = 0"
      "e2 = [] \<longrightarrow> disk s2 = disk s" "m_listenerrunnging s2 = m_listenerrunnging s"
    unfolding s2_def by (rule ofstream_put_summary)
  from p2(1) obtain e3 where p3: "is_open (m_file s3)"
      "disk s3 @ pending (m_file s3) = disk s2 @ pending (m_file s2) @ [CHR 0x0A]"
      "effects s3 = effects s2 @ e3" "list_all is_file_io e3" "count_list e3 MpiBarrier = 0"
      "e3 = [] \<longrightarrow> disk s3 = disk s2" "m_listenerrunnging s3 = m_listenerrunnging s2"
    unfolding s3_def by (rule ofstream_put_summary)
  from p3(1) obtain e4 where p4: "is_open (m_file s4)" "pending (m_file s4) = []"
      "disk s4 = disk s3 @ pending (m_file s3)"
      "effects s4 = effects s3 @ e4" "list_all is_file_io e4" "count_list e4 MpiBarrier = 0"
      "e4 = [] \<longrightarrow> disk s4 = disk s3" "m_listenerrunnging s4 = m_listenerrunnging s3"
    unfolding s4_def by (rule ofstream_flush_summary)
  have d: "disk s4 = disk s @ pending (m_file s) @ p_data @ [CHR 0x0A]"
    using p4(3) p3(2) p2(2) by (metis append.assoc)
  have "e2 @ e3 @ e4 \<noteq> []"
  proof
    assume "e2 @ e3 @ e4 = []"
    with p2(6) p3(6) p4(7) have "disk s4 = disk s" by simp
    with d show False by simp
  qed
  with w p4(1,2) d p2 p3 p4 show ?thesis
    by (intro that [of s4 "e2 @ e3 @ e4"]) simp_all
qed


lemma write2file_summary:
  assumes "p_data \<noteq> []" "is_open (m_file s) \<or> openable s"
  obtains s' evs where "write2file p_data s = Inr s'"
    "is_open (m_file s')" "pending (m_file s') = []"
    "disk s' = disk s @ pending (m_file s) @ p_data @ [CHR 0x0A]"
    "effects s' = effects s @ evs" "evs \<noteq> []" "list_all is_file_io evs"
    "count_list evs MpiBarrier = 0"
    "m_listenerrunnging s' = m_listenerrunnging s"
proof (cases "is_open (m_file s)")
  case True
  with assms(1) show ?thesis by (rule write2file_open_summary) (rule that)
next
  case False
  with assms(2) have can: "openable s" by simp
  define s1 where "s1 = ofstream_open (m_filename s) ios_app s"
  from False can have s1: "is_open (m_file s1)" "disk s1 = disk s"
      "pending (m_file s1) = pending (m_file s)"
      "effects s1 = effects s @ [FileOpen (m_filename s) ios_app True]"
      "m_listenerrunnging s1 = m_listenerrunnging s"
    by (simp_all add: s1_def ofstream_open_def)
  from assms(1) False s1(1) have same: "write2file p_data s = write2file p_data s1"
    by (simp add: write2file_def s1_def)
  from assms(1) s1(1) obtain s' evs where r: "write2file p_data s1 = Inr s'"
      "is_open (m_file s')" "pending (m_file s') = []"
      "disk s' = disk s1 @ pending (m_file s1) @ p_data @ [CHR 0x0A]"
      "effects s' = effects s1 @ evs" "evs \<noteq> []" "list_all is_file_io evs"
      "count_list evs MpiBarrier = 0"
      "m_listenerrunnging s' = m_listenerrunnging s1"
    by (rule write2file_open_summary)
  with same s1 show ?thesis
    by (intro that [of s' "FileOpen (m_filename s) ios_app True # evs"]) simp_all
qed

lemma write2file_closed_unopenable:
  "p_data \<noteq> [] \<Longrightarrow> \<not> is_open (m_file s) \<Longrightarrow> \<not> openable s \<Longrightarrow>
   write2file p_data s = Inr (s\<lparr>effects := effects s @ [FileOpen (m_filename s) ios_app False]\<rparr>)"
  by (simp add: write2file_def ofstream_open_def ofstream_put_def ofstream_flush_def Let_def)

lemma write2file_performs_io:
  assumes "p_data \<noteq> []"
  shows "performs_file_io s (write2file p_data s)"
proof (cases "is_open (m_file s) \<or> openable s")
  case True
  with assms obtain s' evs where "write2file p_data s = Inr s'"
      "effects s' = effects s @ evs" "evs \<noteq> []" "list_all is_file_io evs"
    by (rule write2file_summary)
  then show ?thesis by (simp add: performs_file_io_def)
next
  case False
  with assms show ?thesis
    by (simp add: write2file_closed_unopenable performs_file_io_def)
qed

lemma logformat_label:
  "p_state \<in> {info, warn, error} \<Longrightarrow>
   logformat p_state p_val p_stream =
     Inr (p_stream @ (if p_state = info then ''[info]       ''
                      else if p_state = warn then ''[warn]       '' else ''[error]      '') @ p_val)"
  by (auto simp: logformat_def)

lemma logformat_other:
  "p_state \<notin> {info, warn, error} \<Longrightarrow>
   logformat p_state p_val p_stream = Inl (runtime ''log state is unkown'')"
  by (simp add: logformat_def)

lemma passing_level_is_label:
  assumes "p_state \<in> {none, error, warn, info} \<or>
           (m_logstate s \<in> {none, error, warn, info} \<and> 0 \<le> p_state)"
    and "m_logstate s \<noteq> none" "p_state \<noteq> none" "p_state \<le> m_logstate s"
  shows "p_state \<in> {info, warn, error}"
  using assms by (auto simp: label_defs)

lemma write2file_grows:
  assumes "p_data \<noteq> []" "is_open (m_file s) \<or> openable s"
  obtains s' where "write2file p_data s = Inr s'" "disk s' \<noteq> disk s"
proof -
  from assms obtain s' evs where "write2file p_data s = Inr s'"
      "disk s' = disk s @ pending (m_file s) @ p_data @ [CHR 0x0A]"
    by (rule write2file_summary)
  then show ?thesis by (intro that [of s']) simp_all
qed

subsection \<open>The severity filter of the local write\<close>

text \<open>
  C1. Let the level be one of the four labels, or let the threshold be one of the four
  labels and the level any value that is not negative. Then the local write performs
  file I/O exactly when the level is not none, the threshold is not none and the level
  is at most the threshold; and when the file is open or can be opened, bytes reach the
  file under exactly that condition. Once the threshold is set to none, a write of any
  level whatsoever returns with the state as it was.
\<close>

theorem write_local_emits_iff:
  assumes "p_state \<in> {none, error, warn, info} \<or>
           (m_logstate s \<in> {none, error, warn, info} \<and> 0 \<le> p_state)"
  shows "performs_file_io s (write_local p_state p_val s) =
           (p_state \<noteq> none \<and> m_logstate s \<noteq> none \<and> p_state \<le> m_logstate s) \<and>
         (is_open (m_file s) \<or> openable s \<longrightarrow>
            (case write_local p_state p_val s of
               Inl e \<Rightarrow> False
             | Inr s' \<Rightarrow>
                 (disk s' \<noteq> disk s) =
                   (p_state \<noteq> none \<and> m_logstate s \<noteq> none \<and> p_state \<le> m_logstate s))) \<and>
         write_local p_state' p_val (setLevel none s) = Inr (setLevel none s)"
proof (cases "m_logstate s = none \<or> p_state = none \<or> m_logstate s < p_state")
  case True
  then have "write_local p_state p_val s = Inr s" by (simp add: write_local_def)
  with True show ?thesis
    by (auto simp: performs_file_io_def write_local_def setLevel_def)
next
  case False
  with assms have "p_state \<in> {info, warn, error}"
    by (intro passing_level_is_label [of p_state s]) simp_all
  then obtain line where fmt: "logformat p_state p_val ''local - '' = Inr line" and ne: "line \<noteq> []"
    using logformat_label [of p_state p_val "''local - ''"] by auto
  with False have eq: "write_local p_state p_val s = write2file line s"
    by (simp add: write_local_def)
  have grows: "case write_local p_state p_val s of Inl e \<Rightarrow> False | Inr s' \<Rightarrow>
                 (disk s' \<noteq> disk s) =
                   (p_state \<noteq> none \<and> m_logstate s \<noteq> none \<and> p_state \<le> m_logstate s)"
    if "is_open (m_file s) \<or> openable s"
  proof -
    from ne that obtain s' where "write2file line s = Inr s'" "disk s' \<noteq> disk s"
      by (rule write2file_grows)
    with False show ?thesis unfolding eq by simp
  qed
  have "write_local p_state' p_val (setLevel none s) = Inr (setLevel none s)"
    by (simp add: write_local_def setLevel_def)
  with False grows write2file_performs_io [OF ne, of s] show ?thesis
    unfolding eq by simp
qed

text \<open>
  At threshold warn an error message reaches the file, an info message does not, and
  neither does a message of level 4; after the threshold is set to none the error
  message is suppressed too.
\<close>

theorem write_local_emits_iff_witness:
  "performs_file_io (setLevel warn (logger_new ''log'' True []))
     (write_local error ''disk full'' (setLevel warn (logger_new ''log'' True []))) \<and>
   \<not> performs_file_io (setLevel warn (logger_new ''log'' True []))
     (write_local info ''starting'' (setLevel warn (logger_new ''log'' True []))) \<and>
   \<not> performs_file_io (setLevel warn (logger_new ''log'' True []))
     (write_local 4 ''starting'' (setLevel warn (logger_new ''log'' True []))) \<and>
   write_local error ''disk full'' (setLevel none (setLevel warn (logger_new ''log'' True []))) =
     Inr (setLevel none (setLevel warn (logger_new ''log'' True [])))"
proof -
  let ?s = "setLevel warn (logger_new ''log'' True [])"
  have thr: "m_logstate ?s = warn" by (simp add: setLevel_def)
  have a: "error \<in> {none, error, warn, info} \<or>
           (m_logstate ?s \<in> {none, error, warn, info} \<and> 0 \<le> error)" by simp
  have b: "info \<in> {none, error, warn, info} \<or>
           (m_logstate ?s \<in> {none, error, warn, info} \<and> 0 \<le> info)" by simp
  have c: "4 \<in> {none, error, warn, info} \<or>
           (m_logstate ?s \<in> {none, error, warn, info} \<and> (0::int) \<le> 4)" by (simp add: thr)
  have pass: "error \<noteq> none \<and> m_logstate ?s \<noteq> none \<and> error \<le> m_logstate ?s"
    and drop1: "\<not> (info \<noteq> none \<and> m_logstate ?s \<noteq> none \<and> info \<le> m_logstate ?s)"
    and drop2: "\<not> (4 \<noteq> none \<and> m_logstate ?s \<noteq> none \<and> 4 \<le> m_logstate ?s)"
    by (simp_all add: setLevel_def label_defs)
  from write_local_emits_iff [OF a, of "''disk full''" error] pass
  have "performs_file_io ?s (write_local error ''disk full'' ?s)"
    and "write_local error ''disk full'' (setLevel none ?s) = Inr (setLevel none ?s)"
    by blast+
  moreover from write_local_emits_iff [OF b, of "''starting''"] drop1
  have "\<not> performs_file_io ?s (write_local info ''starting'' ?s)"
    by blast
  moreover from write_local_emits_iff [OF c, of "''starting''"] drop2
  have "\<not> performs_file_io ?s (write_local 4 ''starting'' ?s)"
    by blast
  ultimately show ?thesis by blast
qed

text \<open>
  C10. Whatever the threshold, a level whose number is greater than the threshold,
  a label or not, makes the local write return normally with the state untouched (no
  error and no effect at all); and a local write that throws was given a level that
  passed the filter and is none of info, warn, error.
\<close>

theorem write_filter_before_validation:
  "(m_logstate s < p_state \<longrightarrow> write_local p_state p_val s = Inr s) \<and>
   (write_local p_state p_val s = Inl e \<longrightarrow>
      m_logstate s \<noteq> none \<and> p_state \<noteq> none \<and> p_state \<le> m_logstate s \<and>
      p_state \<notin> {info, warn, error} \<and> e = runtime ''log state is unkown'')"
  by (auto simp: write_local_def logformat_def write2file_def Let_def split: if_splits)

text \<open>
  The value 4 is no label. Under threshold warn it is filtered out; under a threshold
  of 5 it passes the filter and the write throws.
\<close>

theorem write_filter_before_validation_witness:
  "write_local 4 ''x'' (setLevel warn (logger_new ''log'' True [])) =
     Inr (setLevel warn (logger_new ''log'' True [])) \<and>
   write_local 4 ''x'' (setLevel 5 (logger_new ''log'' True [])) =
     Inl (runtime ''log state is unkown'') \<and>
   (4::int) \<notin> {info, warn, error} \<and> 4 \<le> m_logstate (setLevel 5 (logger_new ''log'' True []))"
proof -
  have lt: "m_logstate (setLevel warn (logger_new ''log'' True [])) < 4"
    by (simp add: setLevel_def logger_new_def warn_def)
  have thrown: "write_local 4 ''x'' (setLevel 5 (logger_new ''log'' True [])) =
     Inl (runtime ''log state is unkown'')"
    by (simp add: write_local_def logformat_def setLevel_def logger_new_def label_defs)
  from lt write_filter_before_validation [of "setLevel warn (logger_new ''log'' True [])" 4 "''x''"]
  have "write_local 4 ''x'' (setLevel warn (logger_new ''log'' True [])) =
     Inr (setLevel warn (logger_new ''log'' True []))"
    by blast
  moreover from thrown
    write_filter_before_validation [of "setLevel 5 (logger_new ''log'' True [])" 4 "''x''"
      "runtime ''log state is unkown''"]
  have "(4::int) \<notin> {info, warn, error} \<and> 4 \<le> m_logstate (setLevel 5 (logger_new ''log'' True []))"
    by blast
  ultimately show ?thesis using thrown by blast
qed

subsection \<open>Levels that are not info, warn or error\<close>

text \<open>
  C2, as the code has it. A local write whose level is none of info, warn, error
  throws the runtime exception exactly when the level passes the filter (threshold not
  none, level not none, level at most the threshold); the exception reaches the caller
  of the write, before any I/O. When the level does not pass the filter the write
  returns normally and changes nothing.
\<close>

theorem write_local_invalid_level:
  "p_state \<notin> {info, warn, error} \<Longrightarrow>
   write_local p_state p_val s =
     (if m_logstate s \<noteq> none \<and> p_state \<noteq> none \<and> p_state \<le> m_logstate s
      then Inl (runtime ''log state is unkown'') else Inr s)"
  by (auto simp: write_local_def logformat_other)

text \<open>Level 4 throws under a threshold of 5 and is dropped in silence under info.\<close>

theorem write_local_invalid_level_witness:
  "write_local 4 ''x'' (setLevel 5 (logger_new ''log'' True [])) =
     Inl (runtime ''log state is unkown'') \<and>
   write_local 4 ''x'' (setLevel info (logger_new ''log'' True [])) =
     Inr (setLevel info (logger_new ''log'' True []))"
  using write_local_invalid_level [of 4 "''x''" "setLevel 5 (logger_new ''log'' True [])"]
        write_local_invalid_level [of 4 "''x''" "setLevel info (logger_new ''log'' True [])"]
  by (simp add: label_defs setLevel_def logger_new_def)

text \<open>
  C2 as stated fails: none is not one of info, warn, error, and a write at level none
  returns normally, even under the most verbose threshold.
\<close>

theorem write_local_none_returns_normally:
  "none \<notin> {info, warn, error} \<and>
   write_local none ''x'' (setLevel info (logger_new ''log'' True [])) =
     Inr (setLevel info (logger_new ''log'' True []))"
  by (simp add: write_local_def label_defs)

subsection \<open>The empty message\<close>

text \<open>
  C3, as the code has it. For a level among info, warn, error the local write of the
  empty text never throws. Filtered out by the threshold it changes nothing.
  Otherwise it hands the file sink the line made of the origin and the padded label,
  which is not empty, and when the file is open or can be opened that line and a
  newline are appended to the file.
\<close>

theorem write_local_empty_text:
  "p_state \<in> {info, warn, error} \<Longrightarrow>
   (m_logstate s = none \<or> m_logstate s < p_state \<longrightarrow> write_local p_state [] s = Inr s) \<and>
   (m_logstate s \<noteq> none \<and> p_state \<le> m_logstate s \<longrightarrow>
      write_local p_state [] s =
        write2file (''local - '' @ (if p_state = info then ''[info]       ''
                      else if p_state = warn then ''[warn]       '' else ''[error]      '')) s \<and>
      (case write_local p_state [] s of
         Inl e \<Rightarrow> False
       | Inr s' \<Rightarrow>
           is_open (m_file s) \<or> openable s \<longrightarrow>
             disk s' = disk s @ pending (m_file s) @ ''local - '' @
               (if p_state = info then ''[info]       ''
                else if p_state = warn then ''[warn]       '' else ''[error]      '') @ [CHR 0x0A]))"
proof (intro conjI impI)
  assume "m_logstate s = none \<or> m_logstate s < p_state"
  then show "write_local p_state [] s = Inr s" by (auto simp: write_local_def)
next
  assume lab: "p_state \<in> {info, warn, error}"
    and pass: "m_logstate s \<noteq> none \<and> p_state \<le> m_logstate s"
  let ?line = "''local - '' @ (if p_state = info then ''[info]       ''
                      else if p_state = warn then ''[warn]       '' else ''[error]      '')"
  from lab have nz: "p_state \<noteq> none" by (auto simp: label_defs)
  with lab pass show eq: "write_local p_state [] s = write2file ?line s"
    by (simp add: write_local_def logformat_label)
  have ne: "?line \<noteq> []" by simp
  show "case write_local p_state [] s of
         Inl e \<Rightarrow> False
       | Inr s' \<Rightarrow>
           is_open (m_file s) \<or> openable s \<longrightarrow>
             disk s' = disk s @ pending (m_file s) @ ''local - '' @
               (if p_state = info then ''[info]       ''
                else if p_state = warn then ''[warn]       '' else ''[error]      '') @ [CHR 0x0A]"
  proof (cases "is_open (m_file s) \<or> openable s")
    case True
    with ne obtain s' evs where "write2file ?line s = Inr s'"
        "disk s' = disk s @ pending (m_file s) @ ?line @ [CHR 0x0A]"
      by (rule write2file_summary)
    with True show ?thesis unfolding eq by simp
  next
    case False
    with ne have "write2file ?line s =
        Inr (s\<lparr>effects := effects s @ [FileOpen (m_filename s) ios_app False]\<rparr>)"
      by (simp add: write2file_closed_unopenable)
    with False show ?thesis unfolding eq by simp
  qed
qed

text \<open>
  Under threshold warn, the empty warn message puts the 21 characters of origin and
  label and a newline after the old content of the file, and the empty info message is
  filtered out.
\<close>

theorem write_local_empty_text_witness:
  "write_local warn [] (setLevel warn (logger_new ''log'' True ''old'')) =
     Inr ((setLevel warn (logger_new ''log'' True ''old''))
           \<lparr>m_file := \<lparr>is_open = True, pending = []\<rparr>,
            disk := ''old'' @ ''local - [warn]       '' @ [CHR 0x0A],
            effects := [FileOpen ''log'' ios_app True,
                        FileWrite (''local - [warn]       '' @ [CHR 0x0A])]\<rparr>) \<and>
   write_local info [] (setLevel warn (logger_new ''log'' True ''old'')) =
     Inr (setLevel warn (logger_new ''log'' True ''old''))"
proof -
  let ?s = "setLevel warn (logger_new ''log'' True ''old'')"
  have lab: "warn \<in> {info, warn, error}" "info \<in> {info, warn, error}" by simp_all
  have pass: "m_logstate ?s \<noteq> none \<and> warn \<le> m_logstate ?s"
    by (simp add: setLevel_def logger_new_def label_defs)
  have filtered: "m_logstate ?s = none \<or> m_logstate ?s < info"
    by (simp add: setLevel_def logger_new_def label_defs)
  from write_local_empty_text [OF lab(1), of ?s] pass
  have "write_local warn [] ?s = write2file (''local - '' @ ''[warn]       '') ?s"
    by (simp add: label_defs)
  moreover from write_local_empty_text [OF lab(2), of ?s] filtered
  have "write_local info [] ?s = Inr ?s"
    by blast
  ultimately show ?thesis
    by (simp add: write2file_def stream_defs Let_def setLevel_def logger_new_def)
qed

text \<open>
  C3 as stated fails: on a fresh logger with threshold info, the empty info message
  opens the file and writes the 21 characters of origin and label and a newline.
\<close>

theorem write_local_empty_text_writes_bytes:
  "write_local info [] (setLevel info (logger_new ''log'' True [])) =
     Inr ((setLevel info (logger_new ''log'' True []))
           \<lparr>m_file := \<lparr>is_open = True, pending = []\<rparr>,
            disk := ''local - [info]       '' @ [CHR 0x0A],
            effects := [FileOpen ''log'' ios_app True,
                        FileWrite (''local - [info]       '' @ [CHR 0x0A])]\<rparr>)"
  by (simp add: write_local_def logformat_def write2file_def stream_defs Let_def
        setLevel_def logger_new_def label_defs)

subsection \<open>A log file that cannot be opened\<close>

text \<open>
  C4, as the code has it. When the stream is closed and the file cannot be opened, an
  append of a line that is not empty returns normally: no error reaches the caller,
  the file is left as it was, the stream stays closed, and the call has tried to open
  the file once, to append.
\<close>

theorem write2file_open_failure:
  "p_data \<noteq> [] \<Longrightarrow> \<not> is_open (m_file s) \<Longrightarrow> \<not> openable s \<Longrightarrow>
   write2file p_data s = Inr (s\<lparr>effects := effects s @ [FileOpen (m_filename s) ios_app False]\<rparr>)"
  by (simp add: write2file_def stream_defs Let_def)

theorem write2file_open_failure_witness:
  "write2file ''x'' (logger_new ''log'' False ''old'') =
     Inr ((logger_new ''log'' False ''old'')\<lparr>effects := [FileOpen ''log'' ios_app False]\<rparr>)"
  using write2file_open_failure [of "''x''" "logger_new ''log'' False ''old''"]
  by (simp add: logger_new_def)

text \<open>
  C4 as stated fails: with a file that cannot be opened, the append of an error line
  returns normally, and the line is lost.
\<close>

theorem write2file_open_failure_is_silent:
  "\<not> openable (setLevel info (logger_new ''log'' False [])) \<and>
   write2file ''local - [error]      lost'' (setLevel info (logger_new ''log'' False [])) =
     Inr ((setLevel info (logger_new ''log'' False []))\<lparr>effects := [FileOpen ''log'' ios_app False]\<rparr>)"
  by (simp add: write2file_def stream_defs Let_def setLevel_def logger_new_def)

subsection \<open>The shape of a log line\<close>

lemma write2file_disk:
  assumes "p_data \<noteq> []" "pending (m_file s) = []" "is_open (m_file s) \<or> openable s"
  obtains s' where "write2file p_data s = Inr s'" "disk s' = disk s @ p_data @ [CHR 0x0A]"
proof -
  from assms(1,3) obtain s' evs where "write2file p_data s = Inr s'"
      "disk s' = disk s @ pending (m_file s) @ p_data @ [CHR 0x0A]"
    by (rule write2file_summary)
  with assms(2) show ?thesis by (intro that [of s']) simp_all
qed


lemma show_int_0: "show_int 0 = ''0''"
  by (simp add: show_int_def)

text \<open>
  C5, as the code has it. For a level among info, warn, error that passes the filter,
  the line a write produces is the origin, \<open>" - "\<close>, the label in brackets padded with
  spaces to thirteen characters (seven spaces after \<open>[info]\<close> and \<open>[warn]\<close>, six
  after \<open>[error]\<close>) and the text, with nothing between the padding and the text.
  The origin is \<open>local\<close> for the local write and \<open>CPU\<close>, a space and the rank in
  decimal for the distributed one. The local write and the distributed write on rank 0
  hand this line to the file sink, which appends it and a newline to the file when the
  stream is flushed and the file is open or can be opened; on another rank this line is
  the payload sent to rank 0.
\<close>

theorem log_line_shape:
  "p_state \<in> {info, warn, error} \<Longrightarrow> m_logstate s \<noteq> none \<Longrightarrow> p_state \<le> m_logstate s \<Longrightarrow>
   (let label = (if p_state = info then ''[info]       ''
                 else if p_state = warn then ''[warn]       '' else ''[error]      '')
    in write_local p_state p_val s = write2file (''local - '' @ label @ p_val) s \<and>
       write_mpi p_mpi p_state p_val s =
         (if comm_rank p_mpi = 0 then write2file (''CPU 0 - '' @ label @ p_val) s
          else Inr (s\<lparr>effects := effects s @
                 [MpiIsend 0 LOGGER_MPI_TAG
                    (''CPU '' @ show_int (comm_rank p_mpi) @ '' - '' @ label @ p_val)]\<rparr>)) \<and>
       (pending (m_file s) = [] \<and> (is_open (m_file s) \<or> openable s) \<longrightarrow>
          (case write_local p_state p_val s of
             Inl e \<Rightarrow> False
           | Inr s' \<Rightarrow> disk s' = disk s @ ''local - '' @ label @ p_val @ [CHR 0x0A]) \<and>
          (comm_rank p_mpi = 0 \<longrightarrow>
             (case write_mpi p_mpi p_state p_val s of
                Inl e \<Rightarrow> False
              | Inr s' \<Rightarrow> disk s' = disk s @ ''CPU 0 - '' @ label @ p_val @ [CHR 0x0A]))))"
proof -
  assume lab: "p_state \<in> {info, warn, error}"
    and thr: "m_logstate s \<noteq> none" and le: "p_state \<le> m_logstate s"
  define label where "label = (if p_state = info then ''[info]       ''
                 else if p_state = warn then ''[warn]       '' else ''[error]      '')"
  from lab have nz: "p_state \<noteq> none" by (auto simp: label_defs)
  have fmt: "logformat p_state p_val pre = Inr (pre @ label @ p_val)" for pre
    using logformat_label [OF lab] by (simp add: label_def)
  have loc: "write_local p_state p_val s = write2file (''local - '' @ label @ p_val) s"
    using thr le nz by (simp add: write_local_def fmt)
  have mpi: "write_mpi p_mpi p_state p_val s =
         (if comm_rank p_mpi = 0 then write2file (''CPU 0 - '' @ label @ p_val) s
          else Inr (s\<lparr>effects := effects s @
                 [MpiIsend 0 LOGGER_MPI_TAG
                    (''CPU '' @ show_int (comm_rank p_mpi) @ '' - '' @ label @ p_val)]\<rparr>))"
    using thr le nz by (simp add: write_mpi_def fmt show_int_0)
  have files: "(case write_local p_state p_val s of
             Inl e \<Rightarrow> False
           | Inr s' \<Rightarrow> disk s' = disk s @ ''local - '' @ label @ p_val @ [CHR 0x0A]) \<and>
          (comm_rank p_mpi = 0 \<longrightarrow>
             (case write_mpi p_mpi p_state p_val s of
                Inl e \<Rightarrow> False
              | Inr s' \<Rightarrow> disk s' = disk s @ ''CPU 0 - '' @ label @ p_val @ [CHR 0x0A]))"
    if ok: "pending (m_file s) = [] \<and> (is_open (m_file s) \<or> openable s)"
  proof -
    from ok obtain s1 where "write2file (''local - '' @ label @ p_val) s = Inr s1"
        "disk s1 = disk s @ (''local - '' @ label @ p_val) @ [CHR 0x0A]"
      by (rule_tac p_data = "''local - '' @ label @ p_val" and s = s in write2file_disk) simp_all
    moreover
    from ok obtain s2 where "write2file (''CPU 0 - '' @ label @ p_val) s = Inr s2"
        "disk s2 = disk s @ (''CPU 0 - '' @ label @ p_val) @ [CHR 0x0A]"
      by (rule_tac p_data = "''CPU 0 - '' @ label @ p_val" and s = s in write2file_disk) simp_all
    ultimately show ?thesis
      unfolding loc mpi by simp
  qed
  from loc mpi files show ?thesis
    unfolding Let_def label_def by blast
qed

text \<open>An error message on a fresh logger, written locally and sent from rank 3.\<close>

theorem log_line_shape_witness:
  "write_local error ''boom'' (setLevel info (logger_new ''log'' True ''old'')) =
     Inr ((setLevel info (logger_new ''log'' True ''old''))
            \<lparr>m_file := \<lparr>is_open = True, pending = []\<rparr>,
             disk := ''old'' @ ''local - [error]      boom'' @ [CHR 0x0A],
             effects := [FileOpen ''log'' ios_app True,
                         FileWrite (''local - [error]      boom'' @ [CHR 0x0A])]\<rparr>) \<and>
   write_mpi \<lparr>comm_rank = 3, comm_size = 4\<rparr> error ''boom''
       (setLevel info (logger_new ''log'' True ''old'')) =
     Inr ((setLevel info (logger_new ''log'' True ''old''))
            \<lparr>effects := [MpiIsend 0 999 ''CPU 3 - [error]      boom'']\<rparr>)"
proof -
  let ?s = "setLevel info (logger_new ''log'' True ''old'')"
  let ?c = "\<lparr>comm_rank = 3, comm_size = 4\<rparr>"
  have lab: "error \<in> {info, warn, error}" by simp
  have thr: "m_logstate ?s \<noteq> none" and le: "error \<le> m_logstate ?s"
    by (simp_all add: setLevel_def logger_new_def label_defs)
  have lbl: "(if error = info then ''[info]       ''
              else if error = warn then ''[warn]       '' else ''[error]      '') = ''[error]      ''"
    by (simp add: label_defs)
  have rk: "comm_rank ?c \<noteq> 0" "show_int (comm_rank ?c) = ''3''" by (simp_all add: show_int_def)
  have e: "effects ?s = []" by (simp add: setLevel_def logger_new_def)
  from log_line_shape [OF lab thr le, where p_mpi = ?c and p_val = "''boom''"]
  have "write_local error ''boom'' ?s = write2file (''local - '' @ ''[error]      '' @ ''boom'') ?s"
    and "write_mpi ?c error ''boom'' ?s =
           Inr (?s\<lparr>effects := effects ?s @
                 [MpiIsend 0 LOGGER_MPI_TAG (''CPU '' @ ''3'' @ '' - '' @ ''[error]      '' @ ''boom'')]\<rparr>)"
    unfolding Let_def lbl rk(2) using rk(1) by presburger+
  then show ?thesis
    unfolding e LOGGER_MPI_TAG_def
    by (simp add: write2file_def stream_defs Let_def setLevel_def logger_new_def)
qed

text \<open>
  C5 as stated fails: the line of an info message is not origin, \<open>" - ["\<close>, level,
  \<open>"] "\<close> and text: seven spaces stand between the bracket and the text.
\<close>

theorem log_line_label_is_padded:
  "write_local info ''hello'' (setLevel info (logger_new ''log'' True [])) =
     Inr ((setLevel info (logger_new ''log'' True []))
           \<lparr>m_file := \<lparr>is_open = True, pending = []\<rparr>,
            disk := ''local - [info]       hello'' @ [CHR 0x0A],
            effects := [FileOpen ''log'' ios_app True,
                        FileWrite (''local - [info]       hello'' @ [CHR 0x0A])]\<rparr>) \<and>
   ''local - [info]       hello'' \<noteq> ''local'' @ '' - ['' @ ''info'' @ ''] '' @ ''hello''"
  by (simp add: write_local_def logformat_def write2file_def stream_defs Let_def
        setLevel_def logger_new_def label_defs)

subsection \<open>The distributed write\<close>

text \<open>
  C6. Let the level be one of the four labels, or the threshold one of the four labels
  and the level not negative. When the filter rejects the message, the
  distributed write returns with the state as it was, so there is no send and no file
  I/O. When the message passes, the line is formatted under the origin of the rank; on
  rank 0 the call is the append of that line to the file sink and performs file I/O
  only; on any other rank the one effect of the call is the non-blocking send of the
  line to rank 0 under the logger's tag, after which the call returns: no receive, no
  wait and no file I/O follow.
\<close>

theorem write_mpi_paths:
  "p_state \<in> {none, error, warn, info} \<or>
     (m_logstate s \<in> {none, error, warn, info} \<and> 0 \<le> p_state) \<Longrightarrow>
   (m_logstate s = none \<or> p_state = none \<or> m_logstate s < p_state \<longrightarrow>
      write_mpi p_mpi p_state p_val s = Inr s) \<and>
   (m_logstate s \<noteq> none \<and> p_state \<noteq> none \<and> p_state \<le> m_logstate s \<longrightarrow>
      (case logformat p_state p_val (''CPU '' @ show_int (comm_rank p_mpi) @ '' - '') of
         Inl e \<Rightarrow> False
       | Inr line \<Rightarrow>
           (comm_rank p_mpi = 0 \<longrightarrow>
              write_mpi p_mpi p_state p_val s = write2file line s \<and>
              performs_file_io s (write_mpi p_mpi p_state p_val s)) \<and>
           (comm_rank p_mpi \<noteq> 0 \<longrightarrow>
              write_mpi p_mpi p_state p_val s =
                Inr (s\<lparr>effects := effects s @ [MpiIsend 0 LOGGER_MPI_TAG line]\<rparr>))))"
proof (intro conjI impI)
  assume "m_logstate s = none \<or> p_state = none \<or> m_logstate s < p_state"
  then show "write_mpi p_mpi p_state p_val s = Inr s" by (auto simp: write_mpi_def)
next
  assume lab: "p_state \<in> {none, error, warn, info} \<or>
     (m_logstate s \<in> {none, error, warn, info} \<and> 0 \<le> p_state)"
    and pass: "m_logstate s \<noteq> none \<and> p_state \<noteq> none \<and> p_state \<le> m_logstate s"
  then have lab3: "p_state \<in> {info, warn, error}"
    by (intro passing_level_is_label [of p_state s]) simp_all
  define pre where "pre = ''CPU '' @ show_int (comm_rank p_mpi) @ '' - ''"
  obtain line where fmt: "logformat p_state p_val pre = Inr line" and ne: "line \<noteq> []"
    using logformat_label [OF lab3, of p_val pre] by (auto simp: pre_def)
  have eq: "write_mpi p_mpi p_state p_val s =
             (if comm_rank p_mpi = 0 then write2file line s
              else Inr (s\<lparr>effects := effects s @ [MpiIsend 0 LOGGER_MPI_TAG line]\<rparr>))"
    using pass fmt by (simp add: write_mpi_def pre_def)
  have "(comm_rank p_mpi = 0 \<longrightarrow>
              write_mpi p_mpi p_state p_val s = write2file line s \<and>
              performs_file_io s (write_mpi p_mpi p_state p_val s)) \<and>
           (comm_rank p_mpi \<noteq> 0 \<longrightarrow>
              write_mpi p_mpi p_state p_val s =
                Inr (s\<lparr>effects := effects s @ [MpiIsend 0 LOGGER_MPI_TAG line]\<rparr>))"
    using eq write2file_performs_io [OF ne, of s] by (cases "comm_rank p_mpi = 0") simp_all
  then show "case logformat p_state p_val (''CPU '' @ show_int (comm_rank p_mpi) @ '' - '') of
         Inl e \<Rightarrow> False
       | Inr line \<Rightarrow>
           (comm_rank p_mpi = 0 \<longrightarrow>
              write_mpi p_mpi p_state p_val s = write2file line s \<and>
              performs_file_io s (write_mpi p_mpi p_state p_val s)) \<and>
           (comm_rank p_mpi \<noteq> 0 \<longrightarrow>
              write_mpi p_mpi p_state p_val s =
                Inr (s\<lparr>effects := effects s @ [MpiIsend 0 LOGGER_MPI_TAG line]\<rparr>))"
    unfolding fmt [unfolded pre_def] sum.case .
qed

text \<open>
  Under threshold warn: an info message from rank 2 is filtered out, a warn message
  from rank 2 is sent, and a warn message on rank 0 goes to the file.
\<close>

theorem write_mpi_paths_witness:
  "write_mpi \<lparr>comm_rank = 2, comm_size = 4\<rparr> info ''hello'' (setLevel warn (logger_new ''log'' True [])) =
     Inr (setLevel warn (logger_new ''log'' True [])) \<and>
   write_mpi \<lparr>comm_rank = 2, comm_size = 4\<rparr> warn ''hello'' (setLevel warn (logger_new ''log'' True [])) =
     Inr ((setLevel warn (logger_new ''log'' True []))
            \<lparr>effects := [MpiIsend 0 999 ''CPU 2 - [warn]       hello'']\<rparr>) \<and>
   write_mpi \<lparr>comm_rank = 0, comm_size = 4\<rparr> warn ''hello'' (setLevel warn (logger_new ''log'' True [])) =
     write2file ''CPU 0 - [warn]       hello'' (setLevel warn (logger_new ''log'' True [])) \<and>
   performs_file_io (setLevel warn (logger_new ''log'' True []))
     (write_mpi \<lparr>comm_rank = 0, comm_size = 4\<rparr> warn ''hello'' (setLevel warn (logger_new ''log'' True [])))"
proof -
  let ?s = "setLevel warn (logger_new ''log'' True [])"
  let ?c2 = "\<lparr>comm_rank = 2, comm_size = 4\<rparr>"
  let ?c0 = "\<lparr>comm_rank = 0, comm_size = 4\<rparr>"
  have labs:
    "info \<in> {none, error, warn, info} \<or> (m_logstate ?s \<in> {none, error, warn, info} \<and> 0 \<le> info)"
    "warn \<in> {none, error, warn, info} \<or> (m_logstate ?s \<in> {none, error, warn, info} \<and> 0 \<le> warn)"
    by simp_all
  have filtered: "m_logstate ?s = none \<or> info = none \<or> m_logstate ?s < info"
    by (simp add: setLevel_def logger_new_def label_defs)
  have pass: "m_logstate ?s \<noteq> none \<and> warn \<noteq> none \<and> warn \<le> m_logstate ?s"
    by (simp add: setLevel_def logger_new_def label_defs)
  have fmt2: "logformat warn ''hello'' (''CPU '' @ show_int (comm_rank ?c2) @ '' - '') =
      Inr ''CPU 2 - [warn]       hello''"
    by (simp add: logformat_def label_defs show_int_def)
  have fmt0: "logformat warn ''hello'' (''CPU '' @ show_int (comm_rank ?c0) @ '' - '') =
      Inr ''CPU 0 - [warn]       hello''"
    by (simp add: logformat_def label_defs show_int_def)
  have rk2: "comm_rank ?c2 \<noteq> 0" and rk0: "comm_rank ?c0 = 0" by simp_all
  from write_mpi_paths [OF labs(1), of ?c2 "''hello''"] filtered
  have a: "write_mpi ?c2 info ''hello'' ?s = Inr ?s"
    by blast
  from write_mpi_paths [OF labs(2), of ?c2 "''hello''"] pass
  have "case logformat warn ''hello'' (''CPU '' @ show_int (comm_rank ?c2) @ '' - '') of
         Inl e \<Rightarrow> False
       | Inr line \<Rightarrow>
           (comm_rank ?c2 = 0 \<longrightarrow>
              write_mpi ?c2 warn ''hello'' ?s = write2file line ?s \<and>
              performs_file_io ?s (write_mpi ?c2 warn ''hello'' ?s)) \<and>
           (comm_rank ?c2 \<noteq> 0 \<longrightarrow>
              write_mpi ?c2 warn ''hello'' ?s =
                Inr (?s\<lparr>effects := effects ?s @ [MpiIsend 0 LOGGER_MPI_TAG line]\<rparr>))"
    by blast
  then have b: "write_mpi ?c2 warn ''hello'' ?s =
      Inr (?s\<lparr>effects := effects ?s @ [MpiIsend 0 LOGGER_MPI_TAG ''CPU 2 - [warn]       hello'']\<rparr>)"
    unfolding fmt2 sum.case using rk2 by blast
  from write_mpi_paths [OF labs(2), of ?c0 "''hello''"] pass
  have "case logformat warn ''hello'' (''CPU '' @ show_int (comm_rank ?c0) @ '' - '') of
         Inl e \<Rightarrow> False
       | Inr line \<Rightarrow>
           (comm_rank ?c0 = 0 \<longrightarrow>
              write_mpi ?c0 warn ''hello'' ?s = write2file line ?s \<and>
              performs_file_io ?s (write_mpi ?c0 warn ''hello'' ?s)) \<and>
           (comm_rank ?c0 \<noteq> 0 \<longrightarrow>
              write_mpi ?c0 warn ''hello'' ?s =
                Inr (?s\<lparr>effects := effects ?s @ [MpiIsend 0 LOGGER_MPI_TAG line]\<rparr>))"
    by blast
  then have c: "write_mpi ?c0 warn ''hello'' ?s = write2file ''CPU 0 - [warn]       hello'' ?s \<and>
           performs_file_io ?s (write_mpi ?c0 warn ''hello'' ?s)"
    unfolding fmt0 sum.case using rk0 by blast
  have e: "effects ?s = []" by (simp add: setLevel_def logger_new_def)
  from b have b': "write_mpi ?c2 warn ''hello'' ?s =
      Inr (?s\<lparr>effects := [MpiIsend 0 999 ''CPU 2 - [warn]       hello'']\<rparr>)"
    unfolding e LOGGER_MPI_TAG_def by simp
  from a b' c show ?thesis by blast
qed

subsection \<open>Starting the listener where none is needed\<close>

text \<open>
  C7. When the caller is not rank 0, or the job has one process, or the listener is
  already running, startListener throws nothing and its only effect is the barrier: no
  thread is started and no member of the logger changes.
\<close>

theorem startListener_noop:
  "comm_rank p_mpi \<noteq> 0 \<or> comm_size p_mpi = 1 \<or> m_listenerrunnging s \<Longrightarrow>
   startListener p_mpi s = s\<lparr>effects := effects s @ [MpiBarrier]\<rparr>"
  by (auto simp: startListener_def)

text \<open>Rank 2 of 4, a job of one process, and a second start on rank 0.\<close>

theorem startListener_noop_witness:
  "startListener \<lparr>comm_rank = 2, comm_size = 4\<rparr> (logger_new ''log'' True []) =
     (logger_new ''log'' True [])\<lparr>effects := [MpiBarrier]\<rparr> \<and>
   startListener \<lparr>comm_rank = 0, comm_size = 1\<rparr> (logger_new ''log'' True []) =
     (logger_new ''log'' True [])\<lparr>effects := [MpiBarrier]\<rparr> \<and>
   startListener \<lparr>comm_rank = 0, comm_size = 4\<rparr>
       (startListener \<lparr>comm_rank = 0, comm_size = 4\<rparr> (logger_new ''log'' True [])) =
     (logger_new ''log'' True [])
       \<lparr>m_listenerrunnging := True, effects := [MpiBarrier, ThreadSpawn, MpiBarrier]\<rparr>"
proof -
  let ?s = "logger_new ''log'' True []"
  let ?c = "\<lparr>comm_rank = 0, comm_size = 4\<rparr>"
  have started: "startListener ?c ?s = ?s\<lparr>m_listenerrunnging := True, effects := [MpiBarrier, ThreadSpawn]\<rparr>"
    by (simp add: startListener_def logger_new_def)
  have "m_listenerrunnging (startListener ?c ?s)" unfolding started by simp
  then have "startListener ?c (startListener ?c ?s) =
      (startListener ?c ?s)\<lparr>effects := effects (startListener ?c ?s) @ [MpiBarrier]\<rparr>"
    using startListener_noop [of ?c "startListener ?c ?s"] by blast
  then have again: "startListener ?c (startListener ?c ?s) =
     ?s\<lparr>m_listenerrunnging := True, effects := [MpiBarrier, ThreadSpawn, MpiBarrier]\<rparr>"
    unfolding started by (simp add: logger_new_def)
  from startListener_noop [of "\<lparr>comm_rank = 2, comm_size = 4\<rparr>" ?s] startListener_noop [of "\<lparr>comm_rank = 0, comm_size = 1\<rparr>" ?s] again
  show ?thesis by (simp add: logger_new_def)
qed

subsection \<open>The file sink\<close>

text \<open>Every append leaves the stream flushed, as the constructor does.\<close>

lemma write2file_keeps_flushed:
  assumes "pending (m_file s) = []" "write2file p_data s = Inr s'"
  shows "pending (m_file s') = []"
proof (cases "p_data \<noteq> [] \<and> (is_open (m_file s) \<or> openable s)")
  case True
  then obtain s'' evs where "write2file p_data s = Inr s''" "pending (m_file s'') = []"
    by (blast elim: write2file_summary)
  with assms(2) show ?thesis by simp
next
  case False
  show ?thesis
  proof (cases "p_data = []")
    case True
    with assms show ?thesis by (simp add: write2file_def)
  next
    case ne: False
    with False assms show ?thesis by (auto simp: write2file_closed_unopenable)
  qed
qed







subsection \<open>shutdownListener and the listener thread\<close>


lemma comm_run: "comm (run sched c) = comm c"
proof (induction sched arbitrary: c)
  case Nil
  show ?case by simp
next
  case (Cons a sched)
  have "comm (step a c) = comm c"
  proof (cases a)
    case (Run t)
    then show ?thesis
      by (cases t; cases "main_pc c"; cases "lis_pc c")
         (simp_all add: shutdown_step_def listener_step_def split: list.splits sum.splits)
  next
    case (Deliver l_str)
    then show ?thesis by simp
  qed
  with Cons.IH [of "step a c"] show ?case by simp
qed













end
